theory Spec2Isabelle
  imports Main
begin

section \<open>Python values used by \<^verbatim>\<open>fetch_and_build.py\<close>\<close>

text \<open>
  The script is a single module: the constants, the eligibility predicate
  \<^verbatim>\<open>is_good_game\<close>, the trimmer \<^verbatim>\<open>trim_game\<close> and the driver \<^verbatim>\<open>main\<close>.
  Exceptions are values of \<open>exn\<close>; a function that can raise returns \<open>exn + 'a\<close>
  with \<open>Inl\<close> for the exception. \<open>IllegalMoveError\<close> is python-chess's subclass of
  \<open>ValueError\<close>; \<open>RequestException\<close> stands for whatever \<^verbatim>\<open>export_games\<close> raises.
\<close>

datatype exn = ValueError | KeyError | IllegalMoveError | RequestException

fun isinstance_ValueError :: "exn \<Rightarrow> bool" where
  "isinstance_ValueError ValueError = True"
| "isinstance_ValueError IllegalMoveError = True"
| "isinstance_ValueError KeyError = False"
| "isinstance_ValueError RequestException = False"

subsection \<open>Strings\<close>

text \<open>
  A \<open>char\<close> is read as a code point below 256, so a \<open>string\<close> is a Python \<^verbatim>\<open>str\<close>
  of Latin-1 text. On that range \<^verbatim>\<open>str.lower\<close> maps \<open>A..Z\<close> and the accented capitals
  \<open>0xC0..0xDE\<close> (without the multiplication sign \<open>0xD7\<close>) to the character 32 places
  further, and leaves every other character alone.
\<close>

definition lower_char :: "char \<Rightarrow> char" where
  "lower_char c =
     (let n = (of_char c :: nat)
      in if (65 \<le> n \<and> n \<le> 90) \<or> (192 \<le> n \<and> n \<le> 222 \<and> n \<noteq> 215)
         then char_of (n + 32) else c)"

definition lower :: "string \<Rightarrow> string" where
  "lower s = map lower_char s"

text \<open>
  \<^verbatim>\<open>int(s)\<close> for a \<^verbatim>\<open>str\<close>: white space is stripped at both ends, one sign may
  follow, then decimal digits with single underscores allowed between two digits.
  Anything else raises \<open>ValueError\<close>, and so does a literal of more than 4300 digits
  (the interpreter's default limit for the conversion). The white space \<^verbatim>\<open>int\<close> skips
  is tab, line feed, vertical tab, form feed, carriage return and space, and of the
  characters from 128 on the two Unicode spaces \<open>0x85\<close> and \<open>0xA0\<close>; the separators
  \<open>0x1C..0x1F\<close>, which \<^verbatim>\<open>str.strip\<close> removes, are not skipped by \<^verbatim>\<open>int\<close>.
\<close>

definition int_space :: "char \<Rightarrow> bool" where
  "int_space c = ((of_char c :: nat) \<in> {9, 10, 11, 12, 13, 32, 133, 160})"

definition isdigit :: "char \<Rightarrow> bool" where
  "isdigit c = (48 \<le> (of_char c :: nat) \<and> (of_char c :: nat) \<le> 57)"

definition digit_val :: "char \<Rightarrow> int" where
  "digit_val c = int (of_char c) - 48"

definition strip :: "string \<Rightarrow> string" where
  "strip s = rev (dropWhile int_space (rev (dropWhile int_space s)))"

fun scan_digits :: "int \<Rightarrow> string \<Rightarrow> int option" where
  "scan_digits acc [] = Some acc"
| "scan_digits acc [c] = (if isdigit c then Some (10 * acc + digit_val c) else None)"
| "scan_digits acc (c # d # cs) =
     (if isdigit c then scan_digits (10 * acc + digit_val c) (d # cs)
      else if c = CHR ''_'' \<and> isdigit d then scan_digits acc (d # cs)
      else None)"

definition MAX_STR_DIGITS :: nat where
  "MAX_STR_DIGITS = 4300"

definition unsigned_int :: "string \<Rightarrow> exn + int" where
  "unsigned_int s =
     (case s of
        [] \<Rightarrow> Inl ValueError
      | c # cs \<Rightarrow>
          if \<not> isdigit c then Inl ValueError
          else if MAX_STR_DIGITS < length (filter isdigit s) then Inl ValueError
          else (case scan_digits 0 s of None \<Rightarrow> Inl ValueError | Some n \<Rightarrow> Inr n))"

definition py_int :: "string \<Rightarrow> exn + int" where
  "py_int s =
     (case strip s of
        [] \<Rightarrow> Inl ValueError
      | c # cs \<Rightarrow>
          if c = CHR ''-'' then (case unsigned_int cs of Inl e \<Rightarrow> Inl e | Inr n \<Rightarrow> Inr (- n))
          else if c = CHR ''+'' then unsigned_int cs
          else unsigned_int (c # cs))"

subsection \<open>Games and the chess library\<close>

text \<open>
  A parsed game, as far as the script reads it: \<^verbatim>\<open>game.headers\<close> (a mapping from tag
  names to values) and \<^verbatim>\<open>game.mainline_moves()\<close>. The type \<open>'m\<close> is the library's
  move type.
\<close>

record 'm game =
  headers :: "string \<rightharpoonup> string"
  mainline_moves :: "'m list"

text \<open>\<^verbatim>\<open>hd.get(key, default)\<close>; \<^verbatim>\<open>hd.get(key)\<close> is the map lookup itself.\<close>

definition get :: "(string \<rightharpoonup> string) \<Rightarrow> string \<Rightarrow> string \<Rightarrow> string" where
  "get hdrs key dflt = (case hdrs key of None \<Rightarrow> dflt | Some v \<Rightarrow> v)"

text \<open>Python's \<^verbatim>\<open>not x\<close> for \<^verbatim>\<open>x\<close> either \<^verbatim>\<open>None\<close> or a string.\<close>

definition falsy :: "string option \<Rightarrow> bool" where
  "falsy x = (case x of None \<Rightarrow> True | Some s \<Rightarrow> s = [])"

text \<open>
  python-chess is not part of the repository; what the script needs of it is taken as
  a parameter \<open>L\<close>:
  \<^item> \<open>fen_parses L fen\<close>: \<^verbatim>\<open>chess.Board(fen)\<close> constructs a board (otherwise it raises
    \<open>ValueError\<close>);
  \<^item> \<open>san L fen moves\<close>: the text \<^verbatim>\<open>variation_san\<close> renders for \<open>moves\<close> played from the
    position \<open>fen\<close>, or \<open>None\<close> when one of the moves is illegal there (the library
    raises \<open>IllegalMoveError\<close>).
  A board is identified with the FEN it was built from.
\<close>

record 'm chess =
  fen_parses :: "string \<Rightarrow> bool"
  san :: "string \<Rightarrow> 'm list \<Rightarrow> string option"

definition Board :: "'m chess \<Rightarrow> string \<Rightarrow> exn + string" where
  "Board L fen = (if fen_parses L fen then Inr fen else Inl ValueError)"

definition variation_san :: "'m chess \<Rightarrow> string \<Rightarrow> 'm list \<Rightarrow> exn + string" where
  "variation_san L b moves =
     (case san L b moves of None \<Rightarrow> Inl IllegalMoveError | Some s \<Rightarrow> Inr s)"

definition starting_fen :: string where
  "starting_fen = ''rnbqkbnr/pppppppp/8/8/8/8/PPPPPPPP/RNBQKBNR w KQkq - 0 1''"

text \<open>
  \<^verbatim>\<open>g.board()\<close>: the board of the \<open>FEN\<close> header, the standard position without one.
  The script calls it only on games whose \<open>Variant\<close> is Chess960, where the library
  uses \<^verbatim>\<open>chess.Board\<close>.
\<close>

definition board :: "'m chess \<Rightarrow> 'm game \<Rightarrow> exn + string" where
  "board L g = Board L (get (headers g) ''FEN'' starting_fen)"

text \<open>
  \<^verbatim>\<open>chess.pgn.Game()\<close> starts with the seven tag roster; \<^verbatim>\<open>chess.pgn.read_game\<close>
  builds every game from such a fresh one, so a parsed game has these seven tags.
\<close>

definition Game_headers :: "string \<rightharpoonup> string" where
  "Game_headers =
     [''Event'' \<mapsto> ''?'', ''Site'' \<mapsto> ''?'', ''Date'' \<mapsto> ''????.??.??'', ''Round'' \<mapsto> ''?'',
      ''White'' \<mapsto> ''?'', ''Black'' \<mapsto> ''?'', ''Result'' \<mapsto> ''*'']"

definition TAG_ROSTER :: "string list" where
  "TAG_ROSTER = [''Event'', ''Site'', ''Date'', ''Round'', ''White'', ''Black'', ''Result'']"

definition has_roster :: "'m game \<Rightarrow> bool" where
  "has_roster g = (set TAG_ROSTER \<subseteq> dom (headers g))"

text \<open>
  \<^verbatim>\<open>chess.pgn.read_game\<close>, as far as the script depends on it: the game's headers are
  those of a fresh \<^verbatim>\<open>chess.pgn.Game()\<close> after the tag pairs of the PGN text have been
  assigned in the order of the text, and its mainline is the moves of the movetext.
\<close>

definition read_game :: "(string \<times> string) list \<Rightarrow> 'm list \<Rightarrow> 'm game" where
  "read_game tags moves =
     \<lparr>headers = fold (\<lambda>tag hdrs. hdrs(fst tag \<mapsto> snd tag)) tags Game_headers,
      mainline_moves = moves\<rparr>"

section \<open>The script\<close>

subsection \<open>Constants\<close>

definition BOTS :: "string list" where
  "BOTS =
     [''SoggiestShrimp'', ''AttackKing_Bot'', ''PositionalAI'', ''mayhem23111'',
      ''InvinxibleFlxsh'', ''YoBot_v2'', ''VEER-OMEGA-BOT'', ''MaggiChess16'',
      ''NimsiluBot'', ''pangubot'', ''Loss-Not-Defined'', ''Alexnajax_Fan'',
      ''strain-on-veins'', ''BOTTYBADDY11'', ''ChampionKitten'',
      ''LeelaMultiPoss'', ''ToromBot'',
      ''NNUE_Drift'', ''Strain-On-Veins'', ''Yuki_1324'']"

definition MIN_RATING :: int where
  "MIN_RATING = 2375"

definition MAX_PLIES :: nat where
  "MAX_PLIES = 24"

definition MIN_FEN_GAMES :: nat where
  "MIN_FEN_GAMES = 3"

definition SPEEDS :: "string list" where
  "SPEEDS = [''blitz'', ''rapid'', ''classical'', ''bullet'', ''ultraBullet'', ''correspondence'']"

subsection \<open>\<^verbatim>\<open>is_good_game\<close>\<close>

text \<open>
  The checks in the order of the source. The two \<^verbatim>\<open>int\<close> conversions stand in a
  \<^verbatim>\<open>try\<close> whose handler catches \<open>ValueError\<close> and returns \<^verbatim>\<open>False\<close>; any other
  exception would leave the function.
\<close>

definition is_good_game :: "'m game \<Rightarrow> exn + bool" where
  "is_good_game game =
     (let hdrs = headers game in
      if lower (get hdrs ''Variant'' []) \<noteq> ''chess960'' then Inr False
      else if hdrs ''SetUp'' \<noteq> Some ''1'' \<or> falsy (hdrs ''FEN'') then Inr False
      else if lower (get hdrs ''Speed'' []) \<notin> set (map lower SPEEDS) then Inr False
      else
        (case py_int (get hdrs ''WhiteElo'' ''0'') of
           Inl e \<Rightarrow> if isinstance_ValueError e then Inr False else Inl e
         | Inr wr \<Rightarrow>
             (case py_int (get hdrs ''BlackElo'' ''0'') of
                Inl e \<Rightarrow> if isinstance_ValueError e then Inr False else Inl e
              | Inr br \<Rightarrow>
                  if wr < MIN_RATING \<or> br < MIN_RATING then Inr False
                  else if hdrs ''Result'' \<notin> {Some ''1-0'', Some ''0-1'', Some ''1/2-1/2''}
                  then Inr False
                  else Inr True)))"

subsection \<open>\<^verbatim>\<open>trim_game\<close>\<close>

text \<open>
  The loop over the mainline: \<open>ply\<close> counts the moves added so far, \<open>node\<close> is the line
  built so far (\<^verbatim>\<open>add_variation\<close> appends a move to it and checks nothing).
\<close>

fun trim_loop :: "nat \<Rightarrow> 'm list \<Rightarrow> 'm list \<Rightarrow> 'm list" where
  "trim_loop ply node [] = node"
| "trim_loop ply node (mv # rest) =
     (if MAX_PLIES \<le> ply then node else trim_loop (ply + 1) (node @ [mv]) rest)"

text \<open>
  \<^verbatim>\<open>game.headers["FEN"]\<close> raises \<open>KeyError\<close> without the header and \<^verbatim>\<open>chess.Board\<close>
  raises on a FEN it cannot read; the board is not used afterwards. \<open>new_game\<close> is
  the game the function returns: it starts from the headers of \<^verbatim>\<open>chess.pgn.Game()\<close>,
  receives every header of the original, and its line is the one the loop built.
\<close>

definition new_game :: "'m game \<Rightarrow> 'm game" where
  "new_game game =
     \<lparr>headers = Game_headers ++ headers game,
      mainline_moves = trim_loop 0 [] (mainline_moves game)\<rparr>"

definition trim_game :: "'m chess \<Rightarrow> 'm game \<Rightarrow> exn + 'm game" where
  "trim_game L game =
     (case headers game ''FEN'' of
        None \<Rightarrow> Inl KeyError
      | Some fen \<Rightarrow>
          (case Board L fen of
             Inl e \<Rightarrow> Inl e
           | Inr b \<Rightarrow> Inr (new_game game)))"

subsection \<open>\<^verbatim>\<open>main\<close>\<close>

text \<open>
  The driver's state: the set \<^verbatim>\<open>seen\<close> of keys and the dictionary
  \<^verbatim>\<open>games_by_fen\<close>, whose items come in the order the keys were first inserted.
\<close>

record 'm state =
  seen :: "(string \<times> string) set"
  games_by_fen :: "(string \<times> 'm game list) list"

text \<open>\<^verbatim>\<open>games_by_fen[fen].append(tg)\<close> on a \<^verbatim>\<open>defaultdict(list)\<close>.\<close>

fun append_game :: "string \<Rightarrow> 'a \<Rightarrow> (string \<times> 'a list) list \<Rightarrow> (string \<times> 'a list) list" where
  "append_game fen tg [] = [(fen, [tg])]"
| "append_game fen tg ((k, arr) # rest) =
     (if k = fen then (k, arr @ [tg]) # rest else (k, arr) # append_game fen tg rest)"

text \<open>
  The key of a game: its \<open>FEN\<close> header and the notation of its whole mainline from
  \<^verbatim>\<open>g.board()\<close>.
\<close>

definition game_key :: "'m chess \<Rightarrow> 'm game \<Rightarrow> exn + (string \<times> string)" where
  "game_key L g =
     (case headers g ''FEN'' of
        None \<Rightarrow> Inl KeyError
      | Some fen \<Rightarrow>
          (case board L g of
             Inl e \<Rightarrow> Inl e
           | Inr b \<Rightarrow>
               (case variation_san L b (mainline_moves g) of
                  Inl e \<Rightarrow> Inl e
                | Inr notation \<Rightarrow> Inr (fen, notation))))"

text \<open>The body of the loop over one account's games. Nothing in it is caught.\<close>

definition main_game :: "'m chess \<Rightarrow> 'm state \<Rightarrow> 'm game \<Rightarrow> exn + 'm state" where
  "main_game L st g =
     (case is_good_game g of
        Inl e \<Rightarrow> Inl e
      | Inr good \<Rightarrow>
          if \<not> good then Inr st
          else
            (case game_key L g of
               Inl e \<Rightarrow> Inl e
             | Inr key \<Rightarrow>
                 if key \<in> seen st then Inr st
                 else
                   (case trim_game L g of
                      Inl e \<Rightarrow> Inl e
                    | Inr tg \<Rightarrow>
                        Inr \<lparr>seen = insert key (seen st),
                             games_by_fen = append_game (fst key) tg (games_by_fen st)\<rparr>)))"

fun main_games :: "'m chess \<Rightarrow> 'm state \<Rightarrow> 'm game list \<Rightarrow> exn + 'm state" where
  "main_games L st [] = Inr st"
| "main_games L st (g # gs) =
     (case main_game L st g of Inl e \<Rightarrow> Inl e | Inr st' \<Rightarrow> main_games L st' gs)"

text \<open>
  The loop over the accounts. \<open>export_games username\<close> is the list of games parsed from
  the account's export, or the exception the download raised; only that exception
  is caught, and the account is then skipped.
\<close>

fun main_bots ::
  "'m chess \<Rightarrow> (string \<Rightarrow> exn + 'm game list) \<Rightarrow> 'm state \<Rightarrow> string list \<Rightarrow> exn + 'm state" where
  "main_bots L export_games st [] = Inr st"
| "main_bots L export_games st (username # bots) =
     (case export_games username of
        Inl e \<Rightarrow> main_bots L export_games st bots
      | Inr pgn \<Rightarrow>
          (case main_games L st pgn of
             Inl e \<Rightarrow> Inl e
           | Inr st' \<Rightarrow> main_bots L export_games st' bots))"

text \<open>The last loop: the groups of at least \<open>MIN_FEN_GAMES\<close> games, in dictionary order.\<close>

fun final_loop :: "(string \<times> 'a list) list \<Rightarrow> 'a list \<Rightarrow> 'a list" where
  "final_loop [] final_games = final_games"
| "final_loop ((fen, arr) # rest) final_games =
     final_loop rest (if MIN_FEN_GAMES \<le> length arr then final_games @ arr else final_games)"

definition init_state :: "'m state" where
  "init_state = \<lparr>seen = {}, games_by_fen = []\<rparr>"

text \<open>
  \<open>main\<close> returns the list \<^verbatim>\<open>final_games\<close> that is handed to \<^verbatim>\<open>write_pgn\<close>, over the
  accounts \<open>bots\<close>; the script runs it on \<open>BOTS\<close>.
\<close>

definition main_over ::
  "'m chess \<Rightarrow> (string \<Rightarrow> exn + 'm game list) \<Rightarrow> string list \<Rightarrow> exn + 'm game list" where
  "main_over L export_games bots =
     (case main_bots L export_games init_state bots of
        Inl e \<Rightarrow> Inl e
      | Inr st \<Rightarrow> Inr (final_loop (games_by_fen st) []))"

definition main :: "'m chess \<Rightarrow> (string \<Rightarrow> exn + 'm game list) \<Rightarrow> exn + 'm game list" where
  "main L export_games = main_over L export_games BOTS"

section \<open>The specification's notions\<close>

text \<open>
  The definitions of this section follow the words of the specification; the
  theorems below compare them with the script.
\<close>

subsection \<open>Eligibility, clause by clause\<close>

definition ci_equal :: "string \<Rightarrow> string \<Rightarrow> bool" where
  "ci_equal a b = (lower a = lower b)"

definition variant_clause :: "'m game \<Rightarrow> bool" where
  "variant_clause g =
     (case headers g ''Variant'' of None \<Rightarrow> False | Some v \<Rightarrow> ci_equal v ''chess960'')"

definition setup_clause :: "'m game \<Rightarrow> bool" where
  "setup_clause g =
     (headers g ''SetUp'' = Some ''1'' \<and>
      (case headers g ''FEN'' of None \<Rightarrow> False | Some fen \<Rightarrow> fen \<noteq> []))"

definition speed_clause :: "'m game \<Rightarrow> bool" where
  "speed_clause g =
     (case headers g ''Speed'' of None \<Rightarrow> False | Some s \<Rightarrow> (\<exists>a \<in> set SPEEDS. ci_equal s a))"

text \<open>A rating header parses as an integer that is at least \<open>MIN_RATING\<close>.\<close>

definition rating_ok :: "'m game \<Rightarrow> string \<Rightarrow> bool" where
  "rating_ok g tag =
     (case headers g tag of
        None \<Rightarrow> False
      | Some s \<Rightarrow> (case py_int s of Inl e \<Rightarrow> False | Inr n \<Rightarrow> MIN_RATING \<le> n))"

definition rating_clause :: "'m game \<Rightarrow> bool" where
  "rating_clause g = (rating_ok g ''WhiteElo'' \<and> rating_ok g ''BlackElo'')"

definition result_clause :: "'m game \<Rightarrow> bool" where
  "result_clause g = (headers g ''Result'' \<in> {Some ''1-0'', Some ''0-1'', Some ''1/2-1/2''})"

definition isEligible :: "'m game \<Rightarrow> bool" where
  "isEligible g =
     (variant_clause g \<and> setup_clause g \<and> speed_clause g \<and> rating_clause g \<and> result_clause g)"

text \<open>A rating header that is missing or does not parse as an integer.\<close>

definition rating_malformed :: "'m game \<Rightarrow> string \<Rightarrow> bool" where
  "rating_malformed g tag =
     (case headers g tag of
        None \<Rightarrow> True
      | Some s \<Rightarrow> (case py_int s of Inl e \<Rightarrow> True | Inr n \<Rightarrow> False))"

subsection \<open>Processing order, admitted games, groups and the final dataset\<close>

text \<open>
  The games in processing order: roster order, then the order of each account's
  stream; an account whose retrieval failed contributes nothing.
\<close>

definition stream :: "(string \<Rightarrow> exn + 'm game list) \<Rightarrow> string list \<Rightarrow> 'm game list" where
  "stream export_games bots =
     concat (map (\<lambda>username. case export_games username of Inl e \<Rightarrow> [] | Inr pgn \<Rightarrow> pgn) bots)"

text \<open>
  The admitted games of a stream: a game is admitted when it is eligible and no
  eligible game before it (\<open>prev\<close> holds the games already passed) has the same key.
\<close>

fun admitted :: "'m chess \<Rightarrow> 'm game list \<Rightarrow> 'm game list \<Rightarrow> 'm game list" where
  "admitted L prev [] = []"
| "admitted L prev (g # gs) =
     (if is_good_game g = Inr True \<and>
         \<not> (\<exists>h \<in> set prev. is_good_game h = Inr True \<and> game_key L h = game_key L g)
      then g # admitted L (prev @ [g]) gs
      else admitted L (prev @ [g]) gs)"

definition fen_of :: "'m game \<Rightarrow> string" where
  "fen_of g = get (headers g) ''FEN'' []"

definition FenGroup :: "'m game list \<Rightarrow> string \<Rightarrow> 'm game list" where
  "FenGroup adm fen = filter (\<lambda>g. fen_of g = fen) adm"

text \<open>The distinct elements of a list, in the order of their first occurrence.\<close>

fun first_seen :: "'a list \<Rightarrow> 'a list" where
  "first_seen [] = []"
| "first_seen (x # xs) = x # removeAll x (first_seen xs)"

definition surviving :: "'m game list \<Rightarrow> string list" where
  "surviving adm =
     filter (\<lambda>fen. MIN_FEN_GAMES \<le> length (FenGroup adm fen)) (first_seen (map fen_of adm))"

definition FinalDataset :: "'m game list \<Rightarrow> 'm game list" where
  "FinalDataset adm = concat (map (FenGroup adm) (surviving adm))"

text \<open>
  The library renders two different lines from one position differently (standard
  algebraic notation names each legal move of a position unambiguously).
\<close>

definition san_distinguishes :: "'m chess \<Rightarrow> bool" where
  "san_distinguishes L =
     (\<forall>fen a b s. san L fen a = Some s \<and> san L fen b = Some s \<longrightarrow> a = b)"

section \<open>Sample data\<close>

text \<open>
  A small library for concrete runs: moves are characters, the notation of a line is
  the line itself, the move \<open>x\<close> is illegal everywhere and \<open>bad\<close> is the one FEN the
  board constructor rejects.
\<close>

definition demo_chess :: "char chess" where
  "demo_chess =
     \<lparr>fen_parses = (\<lambda>fen. fen \<noteq> ''bad''),
      san = (\<lambda>fen moves. if CHR ''x'' \<in> set moves then None else Some moves)\<rparr>"

definition demo_headers :: "string \<rightharpoonup> string" where
  "demo_headers =
     Game_headers(''Result'' \<mapsto> ''1-0'', ''Variant'' \<mapsto> ''Chess960'', ''SetUp'' \<mapsto> ''1'',
       ''Speed'' \<mapsto> ''blitz'', ''WhiteElo'' \<mapsto> ''2400'', ''BlackElo'' \<mapsto> ''2500'')"

definition demo_game :: "string \<Rightarrow> string \<Rightarrow> char game" where
  "demo_game fen moves = \<lparr>headers = demo_headers(''FEN'' \<mapsto> fen), mainline_moves = moves\<rparr>"

text \<open>The same game with the White rating replaced by the word \<open>unrated\<close>.\<close>

definition unrated_game :: "char game" where
  "unrated_game =
     \<lparr>headers = demo_headers(''FEN'' \<mapsto> ''f1'', ''WhiteElo'' \<mapsto> ''unrated''),
      mainline_moves = ''abc''\<rparr>"

text \<open>
  One account with three eligible games on the position \<open>f1\<close> and one on \<open>f2\<close>; every
  other account's retrieval fails.
\<close>

definition demo_export :: "string \<Rightarrow> exn + char game list" where
  "demo_export username =
     (if username = ''SoggiestShrimp''
      then Inr [demo_game ''f1'' ''ab'', demo_game ''f2'' ''cd'', demo_game ''f1'' ''ac'',
                demo_game ''f1'' ''ab'', demo_game ''f1'' ''ad'']
      else Inl RequestException)"

text \<open>The same account with a game whose second move is illegal.\<close>

definition demo_export_illegal :: "string \<Rightarrow> exn + char game list" where
  "demo_export_illegal username =
     (if username = ''SoggiestShrimp''
      then Inr [demo_game ''f1'' ''ab'', demo_game ''f1'' ''axb'', demo_game ''f1'' ''ac'']
      else Inl RequestException)"

text \<open>Lines of 24 and of 40 plies.\<close>

definition line24 :: string where
  "line24 = replicate 24 (CHR ''a'')"

definition line40 :: string where
  "line40 = replicate 40 (CHR ''a'')"

section \<open>Auxiliary notions of the proofs\<close>

text \<open>The dictionary that results from appending the pairs \<open>ps\<close> one after the other.\<close>

definition grouped :: "(string \<times> 'a) list \<Rightarrow> (string \<times> 'a list) list" where
  "grouped ps = fold (\<lambda>p. append_game (fst p) (snd p)) ps []"

section \<open>Eligibility and trimming\<close>

lemma lower_SPEEDS:
  "map lower SPEEDS = [''blitz'', ''rapid'', ''classical'', ''bullet'', ''ultrabullet'', ''correspondence'']"
  by code_simp

lemma lower_chess960: "lower ''chess960'' = ''chess960''"
  by code_simp

lemma py_int_zero: "py_int ''0'' = Inr 0"
  by code_simp

lemma py_int_raises: "py_int s = Inl e \<Longrightarrow> e = ValueError"
  by (auto simp: py_int_def unsigned_int_def split: list.splits if_splits sum.splits option.splits)

lemma lower_Nil: "lower [] = []"
  by (simp add: lower_def)

lemma speed_test: "lower (get (headers g) ''Speed'' []) \<in> set (map lower SPEEDS) \<longleftrightarrow> speed_clause g"
proof (cases "headers g ''Speed''")
  case None
  then show ?thesis
    by (simp add: speed_clause_def get_def lower_Nil lower_SPEEDS)
next
  case (Some s)
  then show ?thesis
    by (auto simp: speed_clause_def get_def ci_equal_def)
qed

lemma variant_test: "lower (get (headers g) ''Variant'' []) = ''chess960'' \<longleftrightarrow> variant_clause g"
  by (cases "headers g ''Variant''") (simp_all add: variant_clause_def get_def ci_equal_def lower_Nil lower_chess960)

lemma setup_test:
  "(headers g ''SetUp'' \<noteq> Some ''1'' \<or> falsy (headers g ''FEN'')) \<longleftrightarrow> \<not> setup_clause g"
  by (auto simp: setup_clause_def falsy_def split: option.splits)

lemma rating_test:
  "(case py_int (get (headers g) tag ''0'') of Inl e \<Rightarrow> False | Inr n \<Rightarrow> MIN_RATING \<le> n) = rating_ok g tag"
  by (cases "headers g tag") (simp_all add: rating_ok_def get_def py_int_zero MIN_RATING_def)

lemma is_good_game_isEligible: "is_good_game g = Inr (isEligible g)"
proof -
  have w: "rating_ok g ''WhiteElo'' = (case py_int (get (headers g) ''WhiteElo'' ''0'') of Inl e \<Rightarrow> False | Inr n \<Rightarrow> MIN_RATING \<le> n)"
    by (simp add: rating_test)
  have b: "rating_ok g ''BlackElo'' = (case py_int (get (headers g) ''BlackElo'' ''0'') of Inl e \<Rightarrow> False | Inr n \<Rightarrow> MIN_RATING \<le> n)"
    by (simp add: rating_test)
  show ?thesis
    unfolding is_good_game_def Let_def variant_test setup_test speed_test
    unfolding isEligible_def rating_clause_def w b result_clause_def
    by (auto split: sum.splits dest: py_int_raises)
qed

lemma py_int_unrated: "py_int ''unrated'' = Inl ValueError"
  by code_simp

lemma trim_loop_take: "trim_loop ply node ms = node @ take (MAX_PLIES - ply) ms"
  by (induction ms arbitrary: ply node) (auto simp: take_Cons' )

lemma new_game_moves: "mainline_moves (new_game g) = take MAX_PLIES (mainline_moves g)"
  by (simp add: new_game_def trim_loop_take)

lemma new_game_fen: "headers (new_game g) ''FEN'' = headers g ''FEN''"
  by (simp add: new_game_def Game_headers_def map_add_def split: option.splits)

lemma fen_of_new_game: "fen_of (new_game g) = fen_of g"
  by (simp add: fen_of_def get_def new_game_fen)

lemma trim_game_new_game: "trim_game L g = Inr t \<Longrightarrow> t = new_game g"
  by (auto simp: trim_game_def split: option.splits sum.splits)

lemma trim_game_Inr_iff:
  "trim_game L g = Inr t \<longleftrightarrow> (\<exists>fen. headers g ''FEN'' = Some fen \<and> fen_parses L fen) \<and> t = new_game g"
  by (auto simp: trim_game_def Board_def split: option.splits sum.splits)

lemma good_fen: "is_good_game g = Inr True \<Longrightarrow> \<exists>fen. headers g ''FEN'' = Some fen \<and> fen \<noteq> [] \<and> fen_of g = fen"
  by (auto simp: is_good_game_isEligible isEligible_def setup_clause_def fen_of_def get_def split: option.splits)

lemma game_key_Inr_iff:
  "game_key L g = Inr k \<longleftrightarrow>
     (\<exists>fen s. headers g ''FEN'' = Some fen \<and> fen_parses L fen \<and> san L fen (mainline_moves g) = Some s \<and> k = (fen, s))"
  by (auto simp: game_key_def board_def Board_def variation_san_def get_def split: option.splits sum.splits)

lemma game_key_trim: "game_key L g = Inr k \<Longrightarrow> trim_game L g = Inr (new_game g)"
  by (auto simp: game_key_Inr_iff trim_game_Inr_iff)

lemma game_key_fst: "game_key L g = Inr k \<Longrightarrow> fst k = fen_of g"
  by (auto simp: game_key_Inr_iff fen_of_def get_def)

text \<open>What one pass of the loop body does, in terms of the key.\<close>

lemma main_game_cases:
  "main_game L st g =
     (if is_good_game g \<noteq> Inr True then Inr st
      else case game_key L g of
             Inl e \<Rightarrow> Inl e
           | Inr k \<Rightarrow> if k \<in> seen st then Inr st
                      else Inr \<lparr>seen = insert k (seen st),
                                games_by_fen = append_game (fen_of g) (new_game g) (games_by_fen st)\<rparr>)"
  by (auto simp: main_game_def is_good_game_isEligible game_key_trim split: sum.splits dest: game_key_fst)

lemma main_games_append:
  "main_games L st (xs @ ys) =
     (case main_games L st xs of Inl e \<Rightarrow> Inl e | Inr st' \<Rightarrow> main_games L st' ys)"
  by (induction xs arbitrary: st) (auto split: sum.splits)

lemma main_bots_stream: "main_bots L ex st bots = main_games L st (stream ex bots)"
  by (induction bots arbitrary: st) (auto simp: stream_def main_games_append split: sum.splits)

lemma admitted_append:
  "admitted L prev (xs @ ys) = admitted L prev xs @ admitted L (prev @ xs) ys"
  by (induction xs arbitrary: prev) auto

lemma admitted_subset: "set (admitted L prev xs) \<subseteq> set xs"
  by (induction xs arbitrary: prev) auto

lemma admitted_good: "g \<in> set (admitted L prev xs) \<Longrightarrow> is_good_game g = Inr True"
  by (induction xs arbitrary: prev) (auto split: if_splits)

lemma grouped_snoc: "grouped (ps @ [p]) = append_game (fst p) (snd p) (grouped ps)"
  by (simp add: grouped_def)

lemma first_seen_set: "set (first_seen xs) = set xs"
  by (induction xs) auto

lemma first_seen_distinct: "distinct (first_seen xs)"
  by (induction xs) (auto simp: distinct_removeAll)

lemma first_seen_snoc:
  "first_seen (xs @ [y]) = (if y \<in> set xs then first_seen xs else first_seen xs @ [y])"
  by (induction xs) (auto simp: first_seen_set)

lemma append_game_map:
  "append_game f x (map (\<lambda>k. (k, G k)) ks) =
     (if f \<in> set ks then map (\<lambda>k. (k, if k = f then G k @ [x] else G k)) ks
      else map (\<lambda>k. (k, G k)) ks @ [(f, [x])])"
  if "distinct ks"
  using that by (induction ks) auto

lemma grouped_eq:
  "grouped ps = map (\<lambda>k. (k, map snd (filter (\<lambda>p. fst p = k) ps))) (first_seen (map fst ps))"
proof (induction ps rule: rev_induct)
  case Nil
  then show ?case by (simp add: grouped_def)
next
  case (snoc p ps)
  let ?G = "\<lambda>k. map snd (filter (\<lambda>q. fst q = k) ps)"
  have step: "grouped (ps @ [p]) =
      append_game (fst p) (snd p) (map (\<lambda>k. (k, ?G k)) (first_seen (map fst ps)))"
    by (simp add: grouped_snoc snoc.IH)
  show ?case
  proof (cases "fst p \<in> set (map fst ps)")
    case True
    then show ?thesis
      unfolding step by (simp add: append_game_map first_seen_distinct first_seen_snoc first_seen_set)
  next
    case False
    then have "filter (\<lambda>q. fst q = fst p) ps = []"
      by (induction ps) auto
    moreover from False have "\<forall>q \<in> set ps. fst p \<noteq> fst q"
      by (induction ps) auto
    ultimately show ?thesis
      using False unfolding step
      by (simp add: append_game_map first_seen_distinct first_seen_snoc first_seen_set)
  qed
qed

lemma final_loop_eq:
  "final_loop items acc = acc @ concat (map snd (filter (\<lambda>it. MIN_FEN_GAMES \<le> length (snd it)) items))"
  by (induction items acc rule: final_loop.induct) auto


text \<open>
  The invariant of the driver after the games \<open>xs\<close>: the seen keys are the keys of the
  eligible games so far, and the dictionary holds the admitted games, trimmed.
\<close>

lemma main_games_invariant:
  "main_games L init_state xs = Inr st \<Longrightarrow>
     seen st = {k. \<exists>h \<in> set xs. is_good_game h = Inr True \<and> game_key L h = Inr k} \<and>
     games_by_fen st = grouped (map (\<lambda>g. (fen_of g, new_game g)) (admitted L [] xs)) \<and>
     (\<forall>h \<in> set xs. is_good_game h = Inr True \<longrightarrow> (\<exists>k. game_key L h = Inr k))"
proof (induction xs arbitrary: st rule: rev_induct)
  case Nil
  then show ?case by (auto simp: init_state_def grouped_def)
next
  case (snoc g xs)
  from snoc.prems obtain st0 where run: "main_games L init_state xs = Inr st0"
    and step: "main_game L st0 g = Inr st"
    by (auto simp: main_games_append split: sum.splits)
  note IH = snoc.IH [OF run]
  show ?case
  proof (cases "is_good_game g = Inr True")
    case False
    with step have "st = st0" by (simp add: main_game_cases)
    with IH False show ?thesis by (auto simp: admitted_append)
  next
    case True
    with step obtain k where k: "game_key L g = Inr k"
      by (auto simp: main_game_cases split: sum.splits)
    show ?thesis
    proof (cases "k \<in> seen st0")
      case seen: True
      with step True k have "st = st0" by (simp add: main_game_cases)
      with IH True k seen show ?thesis by (auto simp: admitted_append)
    next
      case fresh: False
      with step True k have st: "st = \<lparr>seen = insert k (seen st0),
          games_by_fen = append_game (fen_of g) (new_game g) (games_by_fen st0)\<rparr>"
        by (simp add: main_game_cases)
      from fresh IH k have nodup: "\<not> (\<exists>h \<in> set xs. is_good_game h = Inr True \<and> game_key L h = game_key L g)"
        by auto
      from nodup True have adm: "admitted L [] (xs @ [g]) = admitted L [] xs @ [g]"
        by (simp add: admitted_append)
      from IH True k show ?thesis
        unfolding adm st by (auto simp: grouped_snoc)
    qed
  qed
qed


lemma group_of_pairs:
  "map snd (filter (\<lambda>p. fst p = k) (map (\<lambda>g. (fen_of g, new_game g)) adm)) =
     map new_game (FenGroup adm k)"
  by (induction adm) (auto simp: FenGroup_def)

lemma final_loop_grouped:
  "final_loop (grouped (map (\<lambda>g. (fen_of g, new_game g)) adm)) [] = map new_game (FinalDataset adm)"
proof -
  let ?ps = "map (\<lambda>g. (fen_of g, new_game g)) adm"
  have keys: "map fst ?ps = map fen_of adm"
    by (simp add: comp_def)
  have "final_loop (grouped ?ps) [] =
      concat (map (\<lambda>k. map new_game (FenGroup adm k))
        (filter (\<lambda>k. MIN_FEN_GAMES \<le> length (FenGroup adm k)) (first_seen (map fen_of adm))))"
    unfolding final_loop_eq grouped_eq keys group_of_pairs
    by (simp add: filter_map comp_def)
  then show ?thesis
    by (simp add: FinalDataset_def surviving_def map_concat comp_def)
qed

lemma main_over_Inr:
  assumes "main_over L ex bots = Inr out"
  shows "out = map new_game (FinalDataset (admitted L [] (stream ex bots)))"
    and "\<forall>g \<in> set (admitted L [] (stream ex bots)). trim_game L g = Inr (new_game g)"
proof -
  from assms obtain st where run: "main_games L init_state (stream ex bots) = Inr st"
    and out: "out = final_loop (games_by_fen st) []"
    by (auto simp: main_over_def main_bots_stream split: sum.splits)
  note inv = main_games_invariant [OF run]
  from inv out show "out = map new_game (FinalDataset (admitted L [] (stream ex bots)))"
    by (simp add: final_loop_grouped)
  show "\<forall>g \<in> set (admitted L [] (stream ex bots)). trim_game L g = Inr (new_game g)"
  proof
    fix g assume g: "g \<in> set (admitted L [] (stream ex bots))"
    then have "g \<in> set (stream ex bots)" "is_good_game g = Inr True"
      using admitted_subset admitted_good by blast+
    with inv obtain k where "game_key L g = Inr k" by blast
    then show "trim_game L g = Inr (new_game g)" by (rule game_key_trim)
  qed
qed

lemma FenGroup_subset: "set (FenGroup adm k) \<subseteq> set adm"
  by (auto simp: FenGroup_def)

lemma FinalDataset_subset: "set (FinalDataset adm) \<subseteq> set adm"
  by (auto simp: FinalDataset_def FenGroup_def)

lemma filter_groups:
  "distinct ks \<Longrightarrow>
   filter (\<lambda>g. fen_of g = f) (concat (map (FenGroup adm) ks)) =
     (if f \<in> set ks then FenGroup adm f else [])"
proof (induction ks)
  case Nil
  then show ?case by simp
next
  case (Cons k ks)
  have one: "filter (\<lambda>g. fen_of g = f) (FenGroup adm k) = (if k = f then FenGroup adm f else [])"
    by (auto simp: FenGroup_def filter_empty_conv intro: filter_cong)
  from Cons show ?case
    by (auto simp: one)
qed

lemma surviving_iff: "f \<in> set (surviving adm) \<longleftrightarrow> MIN_FEN_GAMES \<le> length (FenGroup adm f)"
proof -
  have "FenGroup adm f \<noteq> [] \<Longrightarrow> f \<in> fen_of ` set adm"
    by (auto simp: FenGroup_def filter_empty_conv)
  moreover have "MIN_FEN_GAMES \<le> length (FenGroup adm f) \<Longrightarrow> FenGroup adm f \<noteq> []"
    by (auto simp: MIN_FEN_GAMES_def)
  ultimately show ?thesis
    by (auto simp: surviving_def first_seen_set)
qed

lemma filter_FinalDataset:
  "filter (\<lambda>g. fen_of g = f) (FinalDataset adm) =
     (if MIN_FEN_GAMES \<le> length (FenGroup adm f) then FenGroup adm f else [])"
proof -
  have "distinct (surviving adm)"
    by (simp add: surviving_def first_seen_distinct)
  then show ?thesis
    by (simp add: FinalDataset_def filter_groups surviving_iff)
qed

lemma map_trim_game:
  "\<forall>g \<in> set gs. trim_game L g = Inr (new_game g) \<Longrightarrow> map (trim_game L) gs = map Inr (map new_game gs)"
  by (induction gs) auto

text \<open>
  Claim C9. The list a run returns is the final dataset of its admitted games, each
  trimmed: the groups of at least \<open>MIN_FEN_GAMES\<close> games, in the order in which their
  FENs were first admitted, each group in the order of admission.
\<close>

theorem final_dataset_order:
  "main L export_games = Inr out \<Longrightarrow>
     map Inr out = map (trim_game L) (FinalDataset (admitted L [] (stream export_games BOTS)))"
proof -
  assume "main L export_games = Inr out"
  then have m: "main_over L export_games BOTS = Inr out" by (simp add: main_def)
  let ?adm = "admitted L [] (stream export_games BOTS)"
  have "\<forall>g \<in> set (FinalDataset ?adm). trim_game L g = Inr (new_game g)"
    using main_over_Inr(2) [OF m] FinalDataset_subset by blast
  then show ?thesis
    using main_over_Inr(1) [OF m] by (simp add: map_trim_game)
qed

text \<open>
  Claim C1. Let \<open>adm\<close> be the admitted games of a run that ends without an
  exception. For every FEN \<open>fen\<close>, the games of the final dataset whose \<open>FEN\<close>
  header is \<open>fen\<close> are the trimmed games of the whole group of \<open>fen\<close> when at least
  3 admitted games have that FEN, and there are none otherwise: a FEN appears in the
  final dataset if and only if its group has at least 3 games, and a smaller group
  contributes nothing.
\<close>

theorem fen_group_threshold:
  "main L export_games = Inr out \<Longrightarrow>
     map Inr (filter (\<lambda>t. fen_of t = fen) out) =
       (if 3 \<le> length (FenGroup (admitted L [] (stream export_games BOTS)) fen)
        then map (trim_game L) (FenGroup (admitted L [] (stream export_games BOTS)) fen)
        else []) \<and>
     ((\<exists>t \<in> set out. fen_of t = fen) \<longleftrightarrow>
        3 \<le> length (FenGroup (admitted L [] (stream export_games BOTS)) fen))"
proof -
  assume "main L export_games = Inr out"
  then have m: "main_over L export_games BOTS = Inr out" by (simp add: main_def)
  let ?adm = "admitted L [] (stream export_games BOTS)"
  have trims: "\<forall>g \<in> set (FenGroup ?adm fen). trim_game L g = Inr (new_game g)"
    using main_over_Inr(2) [OF m] FenGroup_subset by blast
  have "filter (\<lambda>t. fen_of t = fen) out = map new_game (filter (\<lambda>g. fen_of g = fen) (FinalDataset ?adm))"
    unfolding main_over_Inr(1) [OF m] by (simp add: filter_map comp_def fen_of_new_game)
  then have sel: "filter (\<lambda>t. fen_of t = fen) out =
      (if 3 \<le> length (FenGroup ?adm fen) then map new_game (FenGroup ?adm fen) else [])"
    by (simp add: filter_FinalDataset MIN_FEN_GAMES_def)
  have first: "map Inr (filter (\<lambda>t. fen_of t = fen) out) =
       (if 3 \<le> length (FenGroup ?adm fen) then map (trim_game L) (FenGroup ?adm fen) else [])"
    unfolding sel using trims by (simp add: map_trim_game)
  have "(\<exists>t \<in> set out. fen_of t = fen) \<longleftrightarrow> filter (\<lambda>t. fen_of t = fen) out \<noteq> []"
    by (auto simp: filter_empty_conv)
  also have "\<dots> \<longleftrightarrow> 3 \<le> length (FenGroup ?adm fen)"
    unfolding sel by auto
  finally show ?thesis using first by simp
qed

section \<open>The sample run\<close>

lemma lower_Chess960: "lower ''Chess960'' = ''chess960''"
  by code_simp

lemma py_int_2400: "py_int ''2400'' = Inr 2400"
  by code_simp

lemma py_int_2500: "py_int ''2500'' = Inr 2500"
  by code_simp

lemma lower_blitz: "lower ''blitz'' = ''blitz''"
  by code_simp

lemma demo_game_good: "fen \<noteq> [] \<Longrightarrow> is_good_game (demo_game fen ms) = Inr True"
  by (simp add: is_good_game_def demo_game_def demo_headers_def get_def falsy_def
      lower_Chess960 lower_blitz lower_SPEEDS py_int_2400 py_int_2500 MIN_RATING_def)

lemma demo_game_key:
  "fen \<noteq> ''bad'' \<Longrightarrow> CHR ''x'' \<notin> set ms \<Longrightarrow> game_key demo_chess (demo_game fen ms) = Inr (fen, ms)"
  by (simp add: game_key_Inr_iff demo_game_def demo_chess_def)

lemma demo_game_fen_of: "fen_of (demo_game fen ms) = fen"
  by (simp add: fen_of_def get_def demo_game_def)

lemma demo_stream:
  "stream demo_export BOTS =
     [demo_game ''f1'' ''ab'', demo_game ''f2'' ''cd'', demo_game ''f1'' ''ac'',
      demo_game ''f1'' ''ab'', demo_game ''f1'' ''ad'']"
  by (simp add: stream_def BOTS_def demo_export_def)

lemma demo_admitted:
  "admitted demo_chess [] (stream demo_export BOTS) =
     [demo_game ''f1'' ''ab'', demo_game ''f2'' ''cd'', demo_game ''f1'' ''ac'', demo_game ''f1'' ''ad'']"
  by (simp add: demo_stream demo_game_good demo_game_key)

lemma demo_main:
  "main demo_chess demo_export =
     Inr [new_game (demo_game ''f1'' ''ab''), new_game (demo_game ''f1'' ''ac''),
          new_game (demo_game ''f1'' ''ad'')]"
  by (simp add: main_def main_over_def main_bots_stream demo_stream main_game_cases
      demo_game_good demo_game_key demo_game_fen_of init_state_def MIN_FEN_GAMES_def)

lemma demo_groups:
  "FenGroup (admitted demo_chess [] (stream demo_export BOTS)) ''f1'' =
     [demo_game ''f1'' ''ab'', demo_game ''f1'' ''ac'', demo_game ''f1'' ''ad'']"
  "FenGroup (admitted demo_chess [] (stream demo_export BOTS)) ''f2'' = [demo_game ''f2'' ''cd'']"
  by (simp_all add: demo_admitted FenGroup_def demo_game_fen_of)

theorem fen_group_threshold_witness:
  "main demo_chess demo_export =
     Inr [new_game (demo_game ''f1'' ''ab''), new_game (demo_game ''f1'' ''ac''),
          new_game (demo_game ''f1'' ''ad'')] \<and>
   length (FenGroup (admitted demo_chess [] (stream demo_export BOTS)) ''f1'') = 3 \<and>
   length (FenGroup (admitted demo_chess [] (stream demo_export BOTS)) ''f2'') = 1 \<and>
   map Inr (filter (\<lambda>t. fen_of t = ''f1'')
      [new_game (demo_game ''f1'' ''ab''), new_game (demo_game ''f1'' ''ac''),
       new_game (demo_game ''f1'' ''ad'')]) =
     map (trim_game demo_chess)
       [demo_game ''f1'' ''ab'', demo_game ''f1'' ''ac'', demo_game ''f1'' ''ad''] \<and>
   filter (\<lambda>t. fen_of t = ''f2'')
      [new_game (demo_game ''f1'' ''ab''), new_game (demo_game ''f1'' ''ac''),
       new_game (demo_game ''f1'' ''ad'')] = []"
  using fen_group_threshold [OF demo_main, of "''f1''"] fen_group_threshold [OF demo_main, of "''f2''"]
  by (simp add: demo_main demo_groups)

theorem final_dataset_order_witness:
  "map Inr [new_game (demo_game ''f1'' ''ab''), new_game (demo_game ''f1'' ''ac''),
          new_game (demo_game ''f1'' ''ad'')] =
   map (trim_game demo_chess)
     (FinalDataset [demo_game ''f1'' ''ab'', demo_game ''f2'' ''cd'', demo_game ''f1'' ''ac'',
        demo_game ''f1'' ''ad''])"
  using final_dataset_order [OF demo_main] by (simp add: demo_admitted)

section \<open>Deduplication\<close>

lemma main_game_seen_mono: "main_game L st g = Inr st' \<Longrightarrow> seen st \<subseteq> seen st'"
  by (auto simp: main_game_cases split: if_splits sum.splits)

lemma main_games_seen_mono: "main_games L st gs = Inr st' \<Longrightarrow> seen st \<subseteq> seen st'"
proof (induction gs arbitrary: st)
  case Nil
  then show ?case by simp
next
  case (Cons g gs)
  then obtain st1 where a: "main_game L st g = Inr st1" and b: "main_games L st1 gs = Inr st'"
    by (auto split: sum.splits)
  from main_game_seen_mono [OF a] Cons.IH [OF b] show ?case by blast
qed

lemma main_game_records_key:
  "main_game L st g = Inr st' \<Longrightarrow> is_good_game g = Inr True \<Longrightarrow> game_key L g = Inr k \<Longrightarrow> k \<in> seen st'"
  by (auto simp: main_game_cases split: if_splits)

lemma main_game_duplicate:
  "is_good_game g = Inr True \<Longrightarrow> game_key L g = Inr k \<Longrightarrow> k \<in> seen st \<Longrightarrow> main_game L st g = Inr st"
  by (simp add: main_game_cases)

lemma main_game_fresh:
  "is_good_game g = Inr True \<Longrightarrow> game_key L g = Inr k \<Longrightarrow> k \<notin> seen st \<Longrightarrow>
   main_game L st g =
     Inr \<lparr>seen = insert k (seen st),
          games_by_fen = append_game (fen_of g) (new_game g) (games_by_fen st)\<rparr>"
  by (simp add: main_game_cases)

lemma later_duplicate_rejected:
  assumes good1: "is_good_game g1 = Inr True" and good2: "is_good_game g2 = Inr True"
    and k1: "game_key L g1 = Inr k" and k2: "game_key L g2 = Inr k"
    and run: "main_games L st0 (xs @ g1 # ys) = Inr st"
  shows "main_game L st g2 = Inr st"
proof -
  from run obtain sa sb where "main_games L st0 xs = Inr sa" and g1: "main_game L sa g1 = Inr sb"
    and ys: "main_games L sb ys = Inr st"
    by (auto simp: main_games_append split: sum.splits)
  from main_game_records_key [OF g1 good1 k1] main_games_seen_mono [OF ys]
  have "k \<in> seen st" by blast
  with good2 k2 show ?thesis by (rule main_game_duplicate)
qed

text \<open>
  Claim C3. The driver passes the games in roster order, then stream order. Of two
  eligible games with the same key the later one is rejected: the loop body leaves
  the state as it is, and the run is the run without that game. The earlier one is
  stored when no eligible game before it has the key. The set of seen keys only
  grows. The later game is not among the admitted games, from which the final dataset
  is made.
\<close>

theorem duplicate_first_wins:
  assumes "is_good_game g1 = Inr True" and "is_good_game g2 = Inr True"
    and "game_key L g1 = Inr k" and "game_key L g2 = Inr k"
  shows
    "main_bots L export_games st0 bots = main_games L st0 (stream export_games bots) \<and>
     main_games L st0 (xs @ g1 # ys @ g2 # zs) = main_games L st0 (xs @ g1 # ys @ zs) \<and>
     (main_games L st0 (xs @ g1 # ys) = Inr st \<longrightarrow> main_game L st g2 = Inr st) \<and>
     (main_games L init_state xs = Inr st1 \<and>
      \<not> (\<exists>h \<in> set xs. is_good_game h = Inr True \<and> game_key L h = Inr k) \<longrightarrow>
        main_game L st1 g1 =
          Inr \<lparr>seen = insert k (seen st1),
               games_by_fen = append_game (fst k) (new_game g1) (games_by_fen st1)\<rparr>) \<and>
     (main_games L st0 gs = Inr st' \<longrightarrow> seen st0 \<subseteq> seen st') \<and>
     admitted L [] (xs @ g1 # ys @ g2 # zs) =
       admitted L [] (xs @ g1 # ys) @ admitted L (xs @ g1 # ys @ [g2]) zs"
proof -
  have adm: "admitted L [] (xs @ g1 # ys @ g2 # zs) =
       admitted L [] (xs @ g1 # ys) @ admitted L (xs @ g1 # ys @ [g2]) zs"
  proof -
    have "admitted L (xs @ g1 # ys) (g2 # zs) = admitted L ((xs @ g1 # ys) @ [g2]) zs"
      using assms by auto
    then show ?thesis
      using admitted_append [of L "[]" "xs @ g1 # ys" "g2 # zs"] by simp
  qed
  have drop: "main_games L st0 (xs @ g1 # ys @ g2 # zs) = main_games L st0 (xs @ g1 # ys @ zs)"
  proof (cases "main_games L st0 (xs @ g1 # ys)")
    case (Inl e)
    have "main_games L st0 ((xs @ g1 # ys) @ g2 # zs) = Inl e"
      unfolding main_games_append [of L st0 "xs @ g1 # ys"] by (simp add: Inl)
    moreover have "main_games L st0 ((xs @ g1 # ys) @ zs) = Inl e"
      unfolding main_games_append [of L st0 "xs @ g1 # ys"] by (simp add: Inl)
    ultimately show ?thesis by simp
  next
    case (Inr st)
    have rej: "main_game L st g2 = Inr st"
      using assms Inr by (rule later_duplicate_rejected)
    have "main_games L st0 ((xs @ g1 # ys) @ g2 # zs) = main_games L st zs"
      unfolding main_games_append [of L st0 "xs @ g1 # ys"] by (simp add: Inr rej)
    moreover have "main_games L st0 ((xs @ g1 # ys) @ zs) = main_games L st zs"
      unfolding main_games_append [of L st0 "xs @ g1 # ys"] by (simp add: Inr)
    ultimately show ?thesis by simp
  qed
  have first: "main_game L st1 g1 =
          Inr \<lparr>seen = insert k (seen st1),
               games_by_fen = append_game (fst k) (new_game g1) (games_by_fen st1)\<rparr>"
    if run: "main_games L init_state xs = Inr st1"
      and new: "\<not> (\<exists>h \<in> set xs. is_good_game h = Inr True \<and> game_key L h = Inr k)"
  proof -
    from main_games_invariant [OF run] new have "k \<notin> seen st1" by auto
    with assms(1,3) show ?thesis
      by (simp add: main_game_fresh game_key_fst)
  qed
  show ?thesis
    using drop first adm assms
    by (auto simp: main_bots_stream later_duplicate_rejected dest: main_games_seen_mono)
qed

theorem duplicate_first_wins_witness:
  "main_games demo_chess init_state [demo_game ''f1'' ''ab'', demo_game ''f2'' ''cd'', demo_game ''f1'' ''ab''] =
   main_games demo_chess init_state [demo_game ''f1'' ''ab'', demo_game ''f2'' ''cd''] \<and>
   main_game demo_chess init_state (demo_game ''f1'' ''ab'') =
     Inr \<lparr>seen = {(''f1'', ''ab'')},
          games_by_fen = [(''f1'', [new_game (demo_game ''f1'' ''ab'')])]\<rparr>"
  using duplicate_first_wins [of "demo_game ''f1'' ''ab''" "demo_game ''f1'' ''ab''" demo_chess "(''f1'', ''ab'')"
      "\<lambda>u. Inl RequestException" init_state "[]" "[]" "[demo_game ''f2'' ''cd'']" "[]" init_state init_state "[]" init_state]
  by (simp add: demo_game_good demo_game_key demo_game_fen_of main_game_cases init_state_def)

lemma game_key_distinct:
  assumes "san_distinguishes L" "game_key L g1 = Inr k1" "game_key L g2 = Inr k2"
    "mainline_moves g1 \<noteq> mainline_moves g2"
  shows "k1 \<noteq> k2"
  using assms unfolding san_distinguishes_def game_key_Inr_iff
  by (metis prod.inject)

text \<open>
  Claim C2. The key of a game is the pair of its \<open>FEN\<close> header and the notation of
  its whole mainline. With a library whose notation tells two lines from one position
  apart, two eligible games that agree on their first 24 plies and differ later have
  different keys; when neither key has been seen, the driver stores both, and the
  two trimmed games have the same moves.
\<close>

theorem dedup_key_full_mainline:
  assumes "san_distinguishes L"
    and "is_good_game g1 = Inr True" and "is_good_game g2 = Inr True"
    and "game_key L g1 = Inr k1" and "game_key L g2 = Inr k2"
    and "take MAX_PLIES (mainline_moves g1) = take MAX_PLIES (mainline_moves g2)"
    and "mainline_moves g1 \<noteq> mainline_moves g2"
  shows
    "san L (fen_of g1) (mainline_moves g1) = Some (snd k1) \<and> fst k1 = fen_of g1 \<and>
     headers g1 ''FEN'' = Some (fst k1) \<and>
     k1 \<noteq> k2 \<and>
     (k1 \<notin> seen st \<and> k2 \<notin> seen st \<longrightarrow>
        main_games L st [g1, g2] =
          Inr \<lparr>seen = insert k2 (insert k1 (seen st)),
               games_by_fen =
                 append_game (fen_of g2) (new_game g2)
                   (append_game (fen_of g1) (new_game g1) (games_by_fen st))\<rparr>) \<and>
     mainline_moves (new_game g1) = mainline_moves (new_game g2)"
proof -
  from assms(4) have key: "san L (fen_of g1) (mainline_moves g1) = Some (snd k1) \<and> fst k1 = fen_of g1
      \<and> headers g1 ''FEN'' = Some (fst k1)"
    by (auto simp: game_key_Inr_iff fen_of_def get_def)
  have ne: "k1 \<noteq> k2"
    using assms(1,4,5,7) by (rule game_key_distinct)
  have both: "main_games L st [g1, g2] =
          Inr \<lparr>seen = insert k2 (insert k1 (seen st)),
               games_by_fen =
                 append_game (fen_of g2) (new_game g2)
                   (append_game (fen_of g1) (new_game g1) (games_by_fen st))\<rparr>"
    if "k1 \<notin> seen st" "k2 \<notin> seen st"
    using that ne assms(2-5) by (simp add: main_game_fresh)
  from key ne both assms(6) show ?thesis
    by (simp add: new_game_moves)
qed

lemma demo_distinguishes: "san_distinguishes demo_chess"
  by (auto simp: san_distinguishes_def demo_chess_def split: if_splits)

theorem dedup_key_full_mainline_witness:
  "game_key demo_chess (demo_game ''f1'' (line24 @ ''b'')) = Inr (''f1'', line24 @ ''b'') \<and>
   game_key demo_chess (demo_game ''f1'' (line24 @ ''c'')) = Inr (''f1'', line24 @ ''c'') \<and>
   (''f1'', line24 @ ''b'') \<noteq> (''f1'', line24 @ ''c'') \<and>
   main_games demo_chess init_state [demo_game ''f1'' (line24 @ ''b''), demo_game ''f1'' (line24 @ ''c'')] =
     Inr \<lparr>seen = {(''f1'', line24 @ ''c''), (''f1'', line24 @ ''b'')},
          games_by_fen = [(''f1'', [new_game (demo_game ''f1'' (line24 @ ''b'')),
                                    new_game (demo_game ''f1'' (line24 @ ''c''))])]\<rparr> \<and>
   mainline_moves (new_game (demo_game ''f1'' (line24 @ ''b''))) = line24 \<and>
   mainline_moves (new_game (demo_game ''f1'' (line24 @ ''c''))) = line24"
proof -
  have x: "CHR ''x'' \<notin> set (line24 @ ''b'')" "CHR ''x'' \<notin> set (line24 @ ''c'')"
    by (simp_all add: line24_def)
  have k1: "game_key demo_chess (demo_game ''f1'' (line24 @ ''b'')) = Inr (''f1'', line24 @ ''b'')"
    and k2: "game_key demo_chess (demo_game ''f1'' (line24 @ ''c'')) = Inr (''f1'', line24 @ ''c'')"
    using x by (simp_all add: demo_game_key)
  have good: "is_good_game (demo_game ''f1'' (line24 @ ''b'')) = Inr True"
    "is_good_game (demo_game ''f1'' (line24 @ ''c'')) = Inr True"
    by (simp_all add: demo_game_good)
  have pre: "take MAX_PLIES (mainline_moves (demo_game ''f1'' (line24 @ ''b''))) =
      take MAX_PLIES (mainline_moves (demo_game ''f1'' (line24 @ ''c'')))"
    by (simp add: demo_game_def line24_def MAX_PLIES_def)
  have ne: "mainline_moves (demo_game ''f1'' (line24 @ ''b'')) \<noteq> mainline_moves (demo_game ''f1'' (line24 @ ''c''))"
    by (simp add: demo_game_def)
  have m: "mainline_moves (new_game (demo_game ''f1'' (line24 @ ''b''))) = line24"
    by (simp add: new_game_moves demo_game_def line24_def MAX_PLIES_def)
  from dedup_key_full_mainline [OF demo_distinguishes good k1 k2 pre ne, of init_state] k1 k2 m show ?thesis
    by (simp add: init_state_def demo_game_fen_of)
qed

section \<open>The predicate, the trimmer and errors\<close>

text \<open>
  Claim C4. \<open>is_good_game\<close> returns \<^verbatim>\<open>True\<close> exactly when the five clauses of the
  specification hold together, and \<^verbatim>\<open>False\<close> exactly when one of them fails.
\<close>

theorem is_good_game_five_clauses:
  "(is_good_game g = Inr True \<longleftrightarrow>
      variant_clause g \<and> setup_clause g \<and> speed_clause g \<and> rating_clause g \<and> result_clause g) \<and>
   (is_good_game g = Inr False \<longleftrightarrow>
      \<not> (variant_clause g \<and> setup_clause g \<and> speed_clause g \<and> rating_clause g \<and> result_clause g))"
  by (auto simp: is_good_game_isEligible isEligible_def)

lemma unrated_malformed: "rating_malformed unrated_game ''WhiteElo''"
  by (simp add: rating_malformed_def unrated_game_def py_int_unrated)

lemma unrated_other_clauses:
  "variant_clause unrated_game \<and> setup_clause unrated_game \<and> speed_clause unrated_game \<and>
   rating_ok unrated_game ''BlackElo'' \<and> result_clause unrated_game"
  by (simp add: variant_clause_def setup_clause_def speed_clause_def rating_ok_def result_clause_def
      unrated_game_def demo_headers_def ci_equal_def lower_Chess960 lower_chess960 lower_blitz
      SPEEDS_def py_int_2500 MIN_RATING_def)

theorem is_good_game_five_clauses_witness:
  "is_good_game (demo_game ''f1'' ''ab'') = Inr True \<and>
   variant_clause (demo_game ''f1'' ''ab'') \<and> setup_clause (demo_game ''f1'' ''ab'') \<and>
   speed_clause (demo_game ''f1'' ''ab'') \<and> rating_clause (demo_game ''f1'' ''ab'') \<and>
   result_clause (demo_game ''f1'' ''ab'') \<and>
   is_good_game unrated_game = Inr False \<and> \<not> rating_clause unrated_game"
proof -
  have "\<not> rating_clause unrated_game"
    by (simp add: rating_clause_def rating_ok_def unrated_game_def py_int_unrated)
  with is_good_game_five_clauses [of "demo_game ''f1'' ''ab''"] is_good_game_five_clauses [of unrated_game] show ?thesis
    by (simp add: demo_game_good)
qed

lemma rating_malformed_not_ok: "rating_malformed g tag \<Longrightarrow> \<not> rating_ok g tag"
  by (auto simp: rating_malformed_def rating_ok_def split: option.splits sum.splits)

text \<open>
  Claim C5. \<open>is_good_game\<close> never raises: it returns a truth value for every game,
  the only exception \<^verbatim>\<open>int\<close> raises is the \<open>ValueError\<close> the handler catches, and a
  game whose \<open>WhiteElo\<close> or \<open>BlackElo\<close> is missing or does not parse is answered with
  \<^verbatim>\<open>False\<close>.
\<close>

theorem is_good_game_never_raises:
  "(\<exists>b. is_good_game g = Inr b) \<and>
   (\<forall>s e. py_int s = Inl e \<longrightarrow> isinstance_ValueError e) \<and>
   (rating_malformed g ''WhiteElo'' \<or> rating_malformed g ''BlackElo'' \<longrightarrow>
      is_good_game g = Inr False)"
  by (auto simp: is_good_game_isEligible isEligible_def rating_clause_def
      dest: rating_malformed_not_ok py_int_raises)

theorem is_good_game_never_raises_witness:
  "py_int ''unrated'' = Inl ValueError \<and> rating_malformed unrated_game ''WhiteElo'' \<and>
   variant_clause unrated_game \<and> setup_clause unrated_game \<and> speed_clause unrated_game \<and>
   rating_ok unrated_game ''BlackElo'' \<and> result_clause unrated_game \<and>
   is_good_game unrated_game = Inr False"
  using is_good_game_never_raises [of unrated_game] unrated_malformed unrated_other_clauses
  by (simp add: py_int_unrated)

text \<open>
  Claim C6. For an accepted game (its key has been computed) \<open>trim_game\<close> returns,
  and the moves of the result are the first \<open>min (length moves) 24\<close> moves of the
  original, so there are exactly that many.
\<close>

theorem trim_game_prefix:
  assumes "game_key L g = Inr k"
  shows "\<exists>t. trim_game L g = Inr t \<and>
     mainline_moves t = take (min (length (mainline_moves g)) 24) (mainline_moves g) \<and>
     length (mainline_moves t) = min (length (mainline_moves g)) 24"
proof -
  have "take MAX_PLIES (mainline_moves g) = take (min (length (mainline_moves g)) 24) (mainline_moves g)"
    by (simp add: MAX_PLIES_def min_def)
  with game_key_trim [OF assms] show ?thesis
    by (simp add: new_game_moves MAX_PLIES_def)
qed

theorem trim_game_prefix_witness:
  "trim_game demo_chess (demo_game ''f1'' line40) = Inr (new_game (demo_game ''f1'' line40)) \<and>
   mainline_moves (new_game (demo_game ''f1'' line40)) = line24 \<and>
   length (mainline_moves (new_game (demo_game ''f1'' line40))) = 24 \<and>
   length (mainline_moves (demo_game ''f1'' line40)) = 40"
proof -
  have "CHR ''x'' \<notin> set line40" by (simp add: line40_def)
  then have k: "game_key demo_chess (demo_game ''f1'' line40) = Inr (''f1'', line40)"
    by (simp add: demo_game_key)
  have len: "mainline_moves (demo_game ''f1'' line40) = line40" "length line40 = 40"
    "take 24 line40 = line24"
    by (simp_all add: demo_game_def line40_def line24_def)
  from trim_game_prefix [OF k] obtain t where t: "trim_game demo_chess (demo_game ''f1'' line40) = Inr t"
    and m: "mainline_moves t = line24" "length (mainline_moves t) = 24"
    by (auto simp: len)
  from trim_game_new_game [OF t] t m len show ?thesis
    by simp
qed

lemma new_game_headers_roster: "has_roster g \<Longrightarrow> headers (new_game g) = headers g"
proof
  fix tag
  assume "has_roster g"
  then have "tag \<in> dom Game_headers \<Longrightarrow> tag \<in> dom (headers g)"
    by (auto simp: has_roster_def TAG_ROSTER_def Game_headers_def split: if_splits)
  then show "headers (new_game g) tag = headers g tag"
    by (auto simp: new_game_def map_add_def split: option.splits)
qed

lemma dom_fold_update:
  "dom (fold (\<lambda>tag hdrs. hdrs(fst tag \<mapsto> snd tag)) tags h) = dom h \<union> fst ` set tags"
  by (induction tags arbitrary: h) auto

lemma read_game_has_roster: "has_roster (read_game tags moves)"
  by (auto simp: has_roster_def read_game_def dom_fold_update TAG_ROSTER_def Game_headers_def)

lemma new_game_headers_copied: "headers g tag = Some v \<Longrightarrow> headers (new_game g) tag = Some v"
  by (simp add: new_game_def)

text \<open>
  Claim C7. Whenever \<open>trim_game\<close> returns, every header of the original is in the
  result with its value, the \<open>FEN\<close> header is the same, and for a game with the seven
  tag roster the headers of the result are the headers of the original. Every game
  the PGN reader returns has the roster (\<open>read_game_has_roster\<close>), and the script trims
  no other games.
\<close>

theorem trim_game_headers:
  assumes "trim_game L g = Inr t"
  shows "(\<forall>tag v. headers g tag = Some v \<longrightarrow> headers t tag = Some v) \<and>
     headers t ''FEN'' = headers g ''FEN'' \<and>
     (has_roster g \<longrightarrow> headers t = headers g)"
  using trim_game_new_game [OF assms]
  by (simp add: new_game_headers_copied new_game_fen new_game_headers_roster)

theorem trim_game_headers_witness:
  "has_roster (read_game [(''Variant'', ''Chess960''), (''FEN'', ''f1'')] line40) \<and>
   trim_game demo_chess (read_game [(''Variant'', ''Chess960''), (''FEN'', ''f1'')] line40) =
     Inr (new_game (read_game [(''Variant'', ''Chess960''), (''FEN'', ''f1'')] line40)) \<and>
   headers (new_game (read_game [(''Variant'', ''Chess960''), (''FEN'', ''f1'')] line40)) =
     headers (read_game [(''Variant'', ''Chess960''), (''FEN'', ''f1'')] line40) \<and>
   headers (new_game (read_game [(''Variant'', ''Chess960''), (''FEN'', ''f1'')] line40)) ''FEN'' =
     Some ''f1''"
proof -
  let ?g = "read_game [(''Variant'', ''Chess960''), (''FEN'', ''f1'')] line40 :: char game"
  have fen: "headers ?g ''FEN'' = Some ''f1''"
    by (simp add: read_game_def)
  then have t: "trim_game demo_chess ?g = Inr (new_game ?g)"
    by (simp add: trim_game_Inr_iff demo_chess_def)
  from trim_game_headers [OF t] read_game_has_roster [of _ line40] t fen show ?thesis
    by simp
qed

text \<open>
  The claim as the specification states it fails for the trimmer: on an eligible
  game whose second move is illegal, \<open>trim_game\<close> returns a game that holds that move.
\<close>

theorem trim_game_keeps_illegal_move:
  "is_good_game (demo_game ''f1'' ''axb'') = Inr True \<and>
   san demo_chess ''f1'' ''axb'' = None \<and>
   trim_game demo_chess (demo_game ''f1'' ''axb'') = Inr (new_game (demo_game ''f1'' ''axb'')) \<and>
   mainline_moves (new_game (demo_game ''f1'' ''axb'')) = ''axb'' \<and>
   san demo_chess ''f1'' (mainline_moves (new_game (demo_game ''f1'' ''axb''))) = None"
  by (simp add: demo_game_good trim_game_Inr_iff new_game_moves MAX_PLIES_def)
     (simp add: demo_game_def demo_chess_def)

lemma trim_game_Inl_iff:
  "trim_game L g = Inl e \<longleftrightarrow>
     (headers g ''FEN'' = None \<and> e = KeyError) \<or>
     (\<exists>fen. headers g ''FEN'' = Some fen \<and> \<not> fen_parses L fen \<and> e = ValueError)"
  by (auto simp: trim_game_def Board_def split: option.splits sum.splits)

lemma main_game_illegal:
  "is_good_game g = Inr True \<Longrightarrow> fen_parses L (fen_of g) \<Longrightarrow>
   san L (fen_of g) (mainline_moves g) = None \<Longrightarrow> main_game L st g = Inl IllegalMoveError"
  by (auto simp: main_game_def game_key_def board_def Board_def variation_san_def get_def
      dest!: good_fen split: sum.splits)

lemma main_game_Inr_legal:
  "is_good_game g = Inr True \<Longrightarrow> main_game L st g = Inr st' \<Longrightarrow>
   \<exists>s. san L (fen_of g) (mainline_moves g) = Some s"
  by (auto simp: main_game_cases game_key_Inr_iff fen_of_def get_def split: sum.splits)

text \<open>
  Claim C8, as amended. \<open>trim_game\<close> checks no move. It raises only \<open>KeyError\<close> (no
  \<open>FEN\<close> header) or \<open>ValueError\<close> (a FEN the board constructor rejects), and otherwise
  returns the first \<open>MAX_PLIES\<close> moves as they are. A mainline that is illegal from the
  declared FEN is detected in the driver, where rendering the key raises
  \<open>IllegalMoveError\<close>; an eligible game that passes the loop body has a mainline that
  renders from its FEN.
\<close>

theorem trim_game_checks_no_move:
  "(trim_game L g = Inl e \<longleftrightarrow>
      (headers g ''FEN'' = None \<and> e = KeyError) \<or>
      (\<exists>fen. headers g ''FEN'' = Some fen \<and> \<not> fen_parses L fen \<and> e = ValueError)) \<and>
   (trim_game L g = Inr t \<longrightarrow> mainline_moves t = take MAX_PLIES (mainline_moves g)) \<and>
   (is_good_game g = Inr True \<and> fen_parses L (fen_of g) \<and>
    san L (fen_of g) (mainline_moves g) = None \<longrightarrow> main_game L st g = Inl IllegalMoveError) \<and>
   (is_good_game g = Inr True \<and> main_game L st g = Inr st' \<longrightarrow>
      (\<exists>s. san L (fen_of g) (mainline_moves g) = Some s))"
  using trim_game_Inl_iff [of L g e] main_game_illegal [of g L st] main_game_Inr_legal [of g L st st']
  by (auto simp: new_game_moves dest!: trim_game_new_game)

theorem trim_game_checks_no_move_witness:
  "trim_game demo_chess (demo_game ''bad'' ''ab'') = Inl ValueError \<and>
   main_game demo_chess init_state (demo_game ''f1'' ''axb'') = Inl IllegalMoveError \<and>
   main_game demo_chess init_state (demo_game ''f1'' ''ab'') =
     Inr \<lparr>seen = {(''f1'', ''ab'')}, games_by_fen = [(''f1'', [new_game (demo_game ''f1'' ''ab'')])]\<rparr> \<and>
   san demo_chess ''f1'' ''ab'' = Some ''ab''"
proof -
  have a: "trim_game demo_chess (demo_game ''bad'' ''ab'') = Inl ValueError"
    using trim_game_checks_no_move [of demo_chess "demo_game ''bad'' ''ab''" ValueError]
    by (simp add: demo_game_def demo_chess_def)
  have b: "main_game demo_chess init_state (demo_game ''f1'' ''axb'') = Inl IllegalMoveError"
    using trim_game_checks_no_move [of demo_chess "demo_game ''f1'' ''axb''" ValueError "new_game (demo_game ''f1'' ''axb'')" init_state init_state]
    by (simp add: demo_game_good demo_game_fen_of) (simp add: demo_chess_def demo_game_def)
  have c: "main_game demo_chess init_state (demo_game ''f1'' ''ab'') =
     Inr \<lparr>seen = {(''f1'', ''ab'')}, games_by_fen = [(''f1'', [new_game (demo_game ''f1'' ''ab'')])]\<rparr>"
    by (simp add: main_game_fresh demo_game_good demo_game_key demo_game_fen_of init_state_def)
  have d: "san demo_chess ''f1'' ''ab'' = Some ''ab''"
    by (simp add: demo_chess_def)
  from a b c d show ?thesis by simp
qed

lemma main_stream:
  "main L export_games =
     (case main_games L init_state (stream export_games BOTS) of
        Inl e \<Rightarrow> Inl e | Inr st \<Rightarrow> Inr (final_loop (games_by_fen st) []))"
  by (simp add: main_def main_over_def main_bots_stream)

lemma main_aborts:
  assumes "stream export_games BOTS = xs @ g # ys" and "main_games L init_state xs = Inr st"
    and "main_game L st g = Inl e"
  shows "main L export_games = Inl e"
  using assms by (simp add: main_stream main_games_append)

text \<open>
  Claim C10. Let the run have passed the games \<open>xs\<close> and reach the game \<open>g\<close>. An
  exception of the loop body at \<open>g\<close> is the result of the whole run. For an eligible
  \<open>g\<close> whose mainline is illegal from its FEN, computing the key raises
  \<open>IllegalMoveError\<close>, before anything is stored, and the run ends with it. Only a
  failed retrieval is skipped: the run goes on with the next account.
\<close>

theorem illegal_mainline_aborts_run:
  assumes "stream export_games BOTS = xs @ g # ys" and "main_games L init_state xs = Inr st"
  shows "(\<forall>e. main_game L st g = Inl e \<longrightarrow> main L export_games = Inl e) \<and>
     (is_good_game g = Inr True \<and> fen_parses L (fen_of g) \<and>
      san L (fen_of g) (mainline_moves g) = None \<longrightarrow>
        game_key L g = Inl IllegalMoveError \<and> main_game L st g = Inl IllegalMoveError \<and>
        main L export_games = Inl IllegalMoveError) \<and>
     (\<forall>e. export_games username = Inl e \<longrightarrow>
        main_bots L export_games st0 (username # bots) = main_bots L export_games st0 bots)"
proof -
  have key: "game_key L g = Inl IllegalMoveError"
    if "is_good_game g = Inr True" "fen_parses L (fen_of g)" "san L (fen_of g) (mainline_moves g) = None"
    using that
    by (auto simp: game_key_def board_def Board_def variation_san_def get_def dest!: good_fen)
  show ?thesis
    using main_aborts [OF assms] main_game_illegal [of g L st] key
    by auto
qed

lemma demo_illegal_stream:
  "stream demo_export_illegal BOTS =
     [demo_game ''f1'' ''ab''] @ demo_game ''f1'' ''axb'' # [demo_game ''f1'' ''ac'']"
  by (simp add: stream_def BOTS_def demo_export_illegal_def)

lemma demo_illegal_prefix:
  "main_games demo_chess init_state [demo_game ''f1'' ''ab''] =
     Inr \<lparr>seen = {(''f1'', ''ab'')}, games_by_fen = [(''f1'', [new_game (demo_game ''f1'' ''ab'')])]\<rparr>"
  by (simp add: main_game_fresh demo_game_good demo_game_key demo_game_fen_of init_state_def)

theorem illegal_mainline_aborts_run_witness:
  "main demo_chess demo_export_illegal = Inl IllegalMoveError \<and>
   game_key demo_chess (demo_game ''f1'' ''axb'') = Inl IllegalMoveError \<and>
   main_bots demo_chess demo_export_illegal init_state [''AttackKing_Bot'', ''SoggiestShrimp''] =
     main_bots demo_chess demo_export_illegal init_state [''SoggiestShrimp'']"
proof -
  have ill: "is_good_game (demo_game ''f1'' ''axb'') = Inr True \<and>
      fen_parses demo_chess (fen_of (demo_game ''f1'' ''axb'')) \<and>
      san demo_chess (fen_of (demo_game ''f1'' ''axb'')) (mainline_moves (demo_game ''f1'' ''axb'')) = None"
    by (simp add: demo_game_good demo_game_fen_of) (simp add: demo_chess_def demo_game_def)
  have skip: "demo_export_illegal ''AttackKing_Bot'' = Inl RequestException"
    by (simp add: demo_export_illegal_def)
  from illegal_mainline_aborts_run [OF demo_illegal_stream demo_illegal_prefix, of "''AttackKing_Bot''" init_state "[''SoggiestShrimp'']"]
    ill skip
  show ?thesis by blast
qed

end
